theory Spec2Isabelle
  imports Main "HOL-Library.FSet" "HOL-Library.Stream"
begin

unbundle bit_operations_syntax

section \<open>Python values and exceptions\<close>

text \<open>
  The harness is Python. Its integers are unbounded, so they are HOL's \<open>int\<close>. An
  exception is a value of \<open>error\<close> on the left of a sum. The message of an
  \<open>AssertionError\<close> raised by the assertion helpers is an f-string with two interpolated
  integers; it is kept as the kind of message and the two integers.
\<close>

datatype assert_msg =
    Sum_mismatch int int      \<comment> \<open>\<open>f"Sum mismatch: got {sum_val}, expected {expected_sum}"\<close>\<close>
  | C_out_mismatch int int    \<comment> \<open>\<open>f"C_out mismatch: got {c_out_val}, expected {expected_c_out}"\<close>\<close>

datatype error =
    ValueError
  | TypeError
  | OSError
  | FileNotFoundError
  | JSONDecodeError
  | AssertionError assert_msg

text \<open>
  \<open>x << n\<close> and \<open>x >> n\<close> on Python integers: both raise \<open>ValueError\<close> (negative shift
  count) when \<open>n < 0\<close>; otherwise the left shift multiplies by \<open>2 ^ n\<close> and the right shift
  is the floor division by \<open>2 ^ n\<close>.
\<close>

definition py_lshift :: "int \<Rightarrow> int \<Rightarrow> error + int" where
  "py_lshift x n = (if n < 0 then Inl ValueError else Inr (push_bit (nat n) x))"

definition py_rshift :: "int \<Rightarrow> int \<Rightarrow> error + int" where
  "py_rshift x n = (if n < 0 then Inl ValueError else Inr (drop_bit (nat n) x))"

section \<open>The reference model of \<open>test_adder_basic\<close>\<close>

text \<open>
  \<open>mask = (1 << N) - 1\<close> is computed once, before the loop over the vectors.
\<close>

definition mask_of :: "int \<Rightarrow> error + int" where
  "mask_of N = (case py_lshift 1 N of Inl e \<Rightarrow> Inl e | Inr p \<Rightarrow> Inr (p - 1))"

text \<open>
  Inside the loop: \<open>total = a + b + c_in\<close>, \<open>expected_sum = total & mask\<close>,
  \<open>expected_c_out = total >> N\<close>. The result is the pair
  \<open>(expected_sum, expected_c_out)\<close>; \<open>mask_v\<close> is the source's variable \<open>mask\<close>.
\<close>

definition expected :: "int \<Rightarrow> int \<Rightarrow> int \<Rightarrow> int \<Rightarrow> int \<Rightarrow> error + (int \<times> int)" where
  "expected N mask_v a b c_in =
     (let total = a + b + c_in;
          expected_sum = total AND mask_v
      in case py_rshift total N of
           Inl e \<Rightarrow> Inl e
         | Inr expected_c_out \<Rightarrow> Inr (expected_sum, expected_c_out))"

text \<open>The two steps together, for one vector at width \<open>N\<close>.\<close>

definition reference_model :: "int \<Rightarrow> int \<Rightarrow> int \<Rightarrow> int \<Rightarrow> error + (int \<times> int)" where
  "reference_model N a b c_in =
     (case mask_of N of Inl e \<Rightarrow> Inl e | Inr mask_v \<Rightarrow> expected N mask_v a b c_in)"

section \<open>The stimulus generator \<open>AdderSequence\<close>\<close>

text \<open>
  The generator draws from Python's global random number generator. Its state is a stream
  of raw draws: \<open>random.randint(lo, hi)\<close> consumes one draw and returns an integer of
  \<open>[lo, hi]\<close> determined by it (every integer of the range is the image of some draw); it
  raises \<open>ValueError\<close> (empty range) when \<open>hi < lo\<close>, and then consumes nothing. The state
  is returned together with the result, also when the call raises.
\<close>

type_synonym rng = "nat stream"

definition randint :: "int \<Rightarrow> int \<Rightarrow> rng \<Rightarrow> (error + int) \<times> rng" where
  "randint lo hi g =
     (if hi < lo then (Inl ValueError, g)
      else (Inr (lo + int (shd g mod nat (hi - lo + 1))), stl g))"

type_synonym vector = "int \<times> int \<times> int"

record AdderSequence =
  width :: int

text \<open>\<open>AdderSequence.__init__\<close> stores the width and checks nothing.\<close>

definition AdderSequence_init :: "int \<Rightarrow> AdderSequence" where
  "AdderSequence_init w = \<lparr>width = w\<rparr>"

text \<open>
  The loop \<open>for _ in range(num_vectors)\<close> of \<open>generate_vectors\<close>, by the number of
  iterations left: three draws and one \<open>append\<close> per iteration.
\<close>

fun generate_loop :: "nat \<Rightarrow> int \<Rightarrow> vector list \<Rightarrow> rng \<Rightarrow> (error + vector list) \<times> rng" where
  "generate_loop 0 max_val vectors g = (Inr vectors, g)"
| "generate_loop (Suc n) max_val vectors g =
     (case randint 0 max_val g of
        (Inl e, g1) \<Rightarrow> (Inl e, g1)
      | (Inr a, g1) \<Rightarrow>
          (case randint 0 max_val g1 of
             (Inl e, g2) \<Rightarrow> (Inl e, g2)
           | (Inr b, g2) \<Rightarrow>
               (case randint 0 1 g2 of
                  (Inl e, g3) \<Rightarrow> (Inl e, g3)
                | (Inr c_in, g3) \<Rightarrow> generate_loop n max_val (vectors @ [(a, b, c_in)]) g3)))"

text \<open>
  \<open>generate_vectors(self, num_vectors=1)\<close>: the argument is optional, \<open>None\<close> standing for
  a call without it. \<open>max_val = (1 << self.width) - 1\<close> is computed before the loop;
  \<open>range(num_vectors)\<close> is empty for a count below 1.
\<close>

definition generate_vectors ::
  "AdderSequence \<Rightarrow> int option \<Rightarrow> rng \<Rightarrow> (error + vector list) \<times> rng" where
  "generate_vectors self arg g =
     (let num_vectors = (case arg of None \<Rightarrow> 1 | Some k \<Rightarrow> k)
      in case py_lshift 1 (width self) of
           Inl e \<Rightarrow> (Inl e, g)
         | Inr p \<Rightarrow> (let max_val = p - 1 in generate_loop (nat num_vectors) max_val [] g))"

text \<open>A vector within the bounds of the generator: both operands in \<open>[0, max_val]\<close>, the carry a bit.\<close>

definition in_bounds :: "int \<Rightarrow> vector \<Rightarrow> bool" where
  "in_bounds max_val v =
     (case v of (a, b, c_in) \<Rightarrow>
        0 \<le> a \<and> a \<le> max_val \<and> 0 \<le> b \<and> b \<le> max_val \<and> (c_in = 0 \<or> c_in = 1))"

section \<open>The coverage collector \<open>AdderCoverage\<close>\<close>

text \<open>
  \<open>covered\<close> is a Python set of tuples. \<open>sample\<close> puts triples of integers into it;
  \<open>load\<close> puts into it whatever tuples the file yields, of any length, their components
  being the hashable values a JSON document can hold: integers, strings and \<open>None\<close>.
  A tuple is therefore a list of such atoms, and the set is a finite set of tuples. A
  Python string is the list of its code points.
\<close>

type_synonym py_str = "nat list"

datatype atom = ANone | AInt int | AStr py_str

type_synonym py_tuple = "atom list"

record AdderCoverage =
  covered :: "py_tuple fset"

definition AdderCoverage_init :: AdderCoverage where
  "AdderCoverage_init = \<lparr>covered = {||}\<rparr>"

text \<open>\<open>sample\<close>: \<open>key = (a, b, cin)\<close>, then \<open>self.covered.add(key)\<close>.\<close>

definition sample :: "AdderCoverage \<Rightarrow> int \<Rightarrow> int \<Rightarrow> int \<Rightarrow> AdderCoverage" where
  "sample self a b cin =
     (let key = [AInt a, AInt b, AInt cin]
      in self\<lparr>covered := finsert key (covered self)\<rparr>)"

text \<open>
  \<open>merge\<close>: \<open>self.covered.update(other_coverage.covered)\<close>. The method returns the
  receiver after the call. Two collectors are two objects of a store, which may be the
  same object; \<open>merge_at h a b\<close> is the store after \<open>a.merge(b)\<close>.
\<close>

definition merge :: "AdderCoverage \<Rightarrow> AdderCoverage \<Rightarrow> AdderCoverage" where
  "merge self other_coverage =
     self\<lparr>covered := covered self |\<union>| covered other_coverage\<rparr>"

type_synonym store = "nat \<Rightarrow> AdderCoverage"

definition merge_at :: "store \<Rightarrow> nat \<Rightarrow> nat \<Rightarrow> store" where
  "merge_at h a b = h(a := merge (h a) (h b))"

text \<open>
  \<open>report\<close> prints one line; the output stream is the list of the lines printed so far.
  \<open>str_of_nat\<close> is Python's decimal rendering of a non-negative integer, here of
  \<open>len(self.covered)\<close>; \<open>digit\<close> is only applied to numbers below 10.
\<close>

definition digit :: "nat \<Rightarrow> char" where
  "digit d = ''0123456789'' ! d"

fun str_of_nat :: "nat \<Rightarrow> string" where
  "str_of_nat n = (if n < 10 then [digit n] else str_of_nat (n div 10) @ [digit (n mod 10)])"

definition report :: "AdderCoverage \<Rightarrow> string list \<Rightarrow> string list" where
  "report self out =
     out @ [''[Coverage] Total unique input combinations: '' @ str_of_nat (fcard (covered self))]"

subsection \<open>Files and JSON\<close>

text \<open>
  A file holds text: either text that \<open>json.load\<close> rejects, or a JSON document.
  \<open>json.dump\<close> writes a document and \<open>json.load\<close> reads back the document that was
  written (integers of any size exactly). A document is also the Python value that
  \<open>json.load\<close> returns for it: a list for an array, a dict for an object, an \<open>int\<close>, a
  \<open>str\<close>, \<open>None\<close>. The literals \<open>true\<close> and \<open>false\<close> and numbers with a fraction or an
  exponent are not part of this model: Python's sets identify \<open>True\<close> with 1 and a float
  with the integer it equals, which the structural equality of the tuples above would not.

  A path of the file system is absent (it can be created), a regular file, or a path
  that cannot be opened in either mode (a directory, a path below a missing directory,
  a file without permissions). Permissions that allow one mode only are not modelled.
\<close>

datatype json =
    JNull
  | JInt int
  | JStr py_str
  | JArr "json list"
  | JObj "(py_str \<times> json) list"

datatype content = Garbage | Doc json

datatype node = Missing | NoAccess | File content

type_synonym fs = "string \<Rightarrow> node"

text \<open>Two file systems for the examples: no file at all, and one regular file.\<close>

definition no_files :: fs where
  "no_files = (\<lambda>p. Missing)"

definition single_file :: "string \<Rightarrow> content \<Rightarrow> fs" where
  "single_file filename c = (\<lambda>p. if p = filename then File c else Missing)"

text \<open>
  \<open>list(self.covered)\<close> enumerates the set in an order of the interpreter's choosing.
  The order is a parameter of \<open>save\<close>; \<open>iterates\<close> says that it lists every element of
  the set once.
\<close>

definition iterates :: "(py_tuple fset \<Rightarrow> py_tuple list) \<Rightarrow> py_tuple fset \<Rightarrow> bool" where
  "iterates order s \<longleftrightarrow> distinct (order s) \<and> fset_of_list (order s) = s"

text \<open>What \<open>json.dump\<close> writes for a hashable value and for a tuple of them (an array).\<close>

fun json_of_atom :: "atom \<Rightarrow> json" where
  "json_of_atom ANone = JNull"
| "json_of_atom (AInt i) = JInt i"
| "json_of_atom (AStr s) = JStr s"

definition json_of_tuple :: "py_tuple \<Rightarrow> json" where
  "json_of_tuple t = JArr (map json_of_atom t)"

text \<open>
  \<open>save\<close>: \<open>data = list(self.covered)\<close>, then \<open>open(filename, "w")\<close>, which raises
  \<open>OSError\<close> at a path that cannot be opened and otherwise creates or truncates the file,
  then \<open>json.dump(data, f)\<close>. The collector is not changed.
\<close>

definition save ::
  "(py_tuple fset \<Rightarrow> py_tuple list) \<Rightarrow> AdderCoverage \<Rightarrow> string \<Rightarrow> fs \<Rightarrow> (error + unit) \<times> fs" where
  "save order self filename fs =
     (let data = order (covered self)
      in case fs filename of
           NoAccess \<Rightarrow> (Inl OSError, fs)
         | _ \<Rightarrow> (Inr (), fs(filename := File (Doc (JArr (map json_of_tuple data))))))"

text \<open>
  The keys of the dict that \<open>json.load\<close> builds for an object, in the order in which a
  dict iterates: each key once, at the place of its first occurrence.
\<close>

fun dict_keys :: "(py_str \<times> json) list \<Rightarrow> py_str list" where
  "dict_keys [] = []"
| "dict_keys ((k, v) # kvs) = k # filter (\<lambda>k'. k' \<noteq> k) (dict_keys kvs)"

text \<open>
  Iterating a value, as \<open>for x in ...\<close> and \<open>tuple(x)\<close> do: a list yields its elements, a
  string its characters (strings of length one), a dict its keys; \<open>None\<close> and an integer
  raise \<open>TypeError\<close> (not iterable).
\<close>

fun py_iter :: "json \<Rightarrow> error + json list" where
  "py_iter (JArr xs) = Inr xs"
| "py_iter (JStr s) = Inr (map (\<lambda>c. JStr [c]) s)"
| "py_iter (JObj kvs) = Inr (map JStr (dict_keys kvs))"
| "py_iter JNull = Inl TypeError"
| "py_iter (JInt i) = Inl TypeError"

text \<open>
  Adding a tuple to a set hashes it, which hashes its components in order: a list or a
  dict raises \<open>TypeError\<close> (unhashable type).
\<close>

fun py_hash :: "json \<Rightarrow> error + atom" where
  "py_hash JNull = Inr ANone"
| "py_hash (JInt i) = Inr (AInt i)"
| "py_hash (JStr s) = Inr (AStr s)"
| "py_hash (JArr xs) = Inl TypeError"
| "py_hash (JObj kvs) = Inl TypeError"

fun hash_tuple :: "json list \<Rightarrow> error + py_tuple" where
  "hash_tuple [] = Inr []"
| "hash_tuple (x # xs) =
     (case py_hash x of
        Inl e \<Rightarrow> Inl e
      | Inr a \<Rightarrow> (case hash_tuple xs of Inl e \<Rightarrow> Inl e | Inr t \<Rightarrow> Inr (a # t)))"

text \<open>
  \<open>set(tuple(x) for x in items)\<close>: the set is built element by element; for each \<open>x\<close> the
  tuple is made and then added.
\<close>

fun build_set :: "json list \<Rightarrow> py_tuple fset \<Rightarrow> error + py_tuple fset" where
  "build_set [] acc = Inr acc"
| "build_set (x # xs) acc =
     (case py_iter x of
        Inl e \<Rightarrow> Inl e
      | Inr items \<Rightarrow>
          (case hash_tuple items of
             Inl e \<Rightarrow> Inl e
           | Inr t \<Rightarrow> build_set xs (finsert t acc)))"

text \<open>
  \<open>load\<close>: \<open>open(filename, "r")\<close> raises \<open>FileNotFoundError\<close> at an absent path and
  \<open>OSError\<close> at one that cannot be opened; \<open>json.load(f)\<close> raises \<open>JSONDecodeError\<close> on
  text that is not JSON; the set is built from the loaded value; the assignment
  \<open>self.covered = ...\<close> is the last step, reached only when nothing was raised. The
  result is the outcome of the call and the collector after it.
\<close>

definition load :: "AdderCoverage \<Rightarrow> string \<Rightarrow> fs \<Rightarrow> (error + unit) \<times> AdderCoverage" where
  "load self filename fs =
     (case fs filename of
        Missing \<Rightarrow> (Inl FileNotFoundError, self)
      | NoAccess \<Rightarrow> (Inl OSError, self)
      | File Garbage \<Rightarrow> (Inl JSONDecodeError, self)
      | File (Doc d) \<Rightarrow>
          (case py_iter d of
             Inl e \<Rightarrow> (Inl e, self)
           | Inr xs \<Rightarrow>
               (case build_set xs {||} of
                  Inl e \<Rightarrow> (Inl e, self)
                | Inr s \<Rightarrow> (Inr (), self\<lparr>covered := s\<rparr>))))"

text \<open>
  The contents that \<open>load\<close> takes without raising, stated on the document alone: the
  top-level value is a list whose elements are lists of hashable values, strings or
  dicts, or it is itself a string or a dict.
\<close>

fun hashable :: "json \<Rightarrow> bool" where
  "hashable (JArr xs) = False"
| "hashable (JObj kvs) = False"
| "hashable x = True"

fun element_ok :: "json \<Rightarrow> bool" where
  "element_ok (JArr ys) = list_all hashable ys"
| "element_ok (JStr s) = True"
| "element_ok (JObj kvs) = True"
| "element_ok x = False"

fun loadable :: "node \<Rightarrow> bool" where
  "loadable (File (Doc (JArr xs))) = list_all element_ok xs"
| "loadable (File (Doc (JStr s))) = True"
| "loadable (File (Doc (JObj kvs))) = True"
| "loadable n = False"

section \<open>The assertion helpers and the test\<close>

text \<open>
  The helpers read \<open>int(dut.sum.value)\<close> and \<open>int(dut.c_out.value)\<close> from the handle;
  the record holds the two integers read. An \<open>assert\<close> that fails raises
  \<open>AssertionError\<close> with its message.
\<close>

record dut_outputs =
  sum_value :: int
  c_out_value :: int

definition assert_adder_sum :: "dut_outputs \<Rightarrow> int \<Rightarrow> error + unit" where
  "assert_adder_sum dut expected_sum =
     (let sum_val = sum_value dut
      in if sum_val = expected_sum then Inr ()
         else Inl (AssertionError (Sum_mismatch sum_val expected_sum)))"

definition assert_adder_c_out :: "dut_outputs \<Rightarrow> int \<Rightarrow> error + unit" where
  "assert_adder_c_out dut expected_c_out =
     (let c_out_val = c_out_value dut
      in if c_out_val = expected_c_out then Inr ()
         else Inl (AssertionError (C_out_mismatch c_out_val expected_c_out)))"

text \<open>
  The checking step of the test: \<open>assert_adder_sum(dut, expected_sum)\<close> followed by
  \<open>assert_adder_c_out(dut, expected_c_out)\<close>. An exception of the first call leaves the
  step, so the second call is not made.
\<close>

definition check_outputs :: "dut_outputs \<Rightarrow> int \<Rightarrow> int \<Rightarrow> error + unit" where
  "check_outputs dut expected_sum expected_c_out =
     (case assert_adder_sum dut expected_sum of
        Inl e \<Rightarrow> Inl e
      | Inr _ \<Rightarrow> assert_adder_c_out dut expected_c_out)"

text \<open>
  The circuit is a black box: its width parameter, and the outputs it shows one time
  unit after the inputs \<open>a\<close>, \<open>b\<close>, \<open>c_in\<close> have been driven.
\<close>

record dut =
  N_value :: int
  settle :: "int \<Rightarrow> int \<Rightarrow> int \<Rightarrow> dut_outputs"

text \<open>
  The loop of \<open>test_adder_basic\<close> over the vectors: drive, wait, compute the expected
  values, check, sample. The first exception ends the test.
\<close>

fun test_loop :: "dut \<Rightarrow> int \<Rightarrow> int \<Rightarrow> vector list \<Rightarrow> AdderCoverage \<Rightarrow> error + AdderCoverage" where
  "test_loop d N mask_v [] coverage = Inr coverage"
| "test_loop d N mask_v ((a, b, c_in) # vs) coverage =
     (let outs = settle d a b c_in
      in case expected N mask_v a b c_in of
           Inl e \<Rightarrow> Inl e
         | Inr (expected_sum, expected_c_out) \<Rightarrow>
             (case check_outputs outs expected_sum expected_c_out of
                Inl e \<Rightarrow> Inl e
              | Inr _ \<Rightarrow> test_loop d N mask_v vs (sample coverage a b c_in)))"

text \<open>
  \<open>test_adder_basic\<close>: the generator and the collector are constructed, the mask is
  computed, \<open>generate_vectors()\<close> is called without a count, the loop runs, and the
  coverage report is printed at the end of a run without exception.
\<close>

definition test_adder_basic :: "dut \<Rightarrow> rng \<Rightarrow> string list \<Rightarrow> (error + unit) \<times> string list" where
  "test_adder_basic d g out =
     (let N = N_value d;
          sequence = AdderSequence_init N;
          coverage = AdderCoverage_init
      in case mask_of N of
           Inl e \<Rightarrow> (Inl e, out)
         | Inr mask_v \<Rightarrow>
             (case generate_vectors sequence None g of
                (Inl e, g') \<Rightarrow> (Inl e, out)
              | (Inr vectors, g') \<Rightarrow>
                  (case test_loop d N mask_v vectors coverage of
                     Inl e \<Rightarrow> (Inl e, out)
                   | Inr coverage' \<Rightarrow> (Inr (), report coverage' out))))"

section \<open>Properties of the reference model\<close>

lemma and_mask_mod: "(t::int) AND (2 ^ n - 1) = t mod 2 ^ n"
proof -
  have "t AND (2 ^ n - 1) = t AND mask n"
    by (simp add: mask_eq_exp_minus_1)
  also have "\<dots> = take_bit n t"
    by (simp add: take_bit_eq_mask)
  finally show ?thesis
    by (simp add: take_bit_eq_mod)
qed

lemma reference_model_eq:
  assumes "0 \<le> N"
  shows "reference_model N a b c_in =
           Inr ((a + b + c_in) mod 2 ^ nat N, (a + b + c_in) div 2 ^ nat N)"
  using assms
  by (simp add: reference_model_def mask_of_def expected_def py_lshift_def py_rshift_def Let_def
      and_mask_mod drop_bit_eq_div)

lemma carry_is_bit:
  fixes a b c_in :: int
  assumes "0 \<le> a" "a < 2 ^ n" "0 \<le> b" "b < 2 ^ n" "c_in = 0 \<or> c_in = 1"
  shows "(a + b + c_in) div 2 ^ n = 0 \<or> (a + b + c_in) div 2 ^ n = 1"
proof (cases "a + b + c_in < 2 ^ n")
  case True
  moreover have "0 \<le> a + b + c_in" using assms by auto
  ultimately show ?thesis by (simp add: div_pos_pos_trivial)
next
  case False
  define r where "r = a + b + c_in - 2 ^ n"
  have "0 \<le> r" using False by (simp add: r_def)
  moreover have "r < 2 ^ n" using assms by (auto simp: r_def)
  ultimately have "r div 2 ^ n = 0" by (simp add: div_pos_pos_trivial)
  moreover have "a + b + c_in = r + 2 ^ n" by (simp add: r_def)
  ultimately have "(a + b + c_in) div 2 ^ n = 1" by simp
  then show ?thesis ..
qed

text \<open>
  Claim C1. For every width \<open>N > 0\<close>, all \<open>a\<close>, \<open>b\<close> in \<open>[0, 2^N - 1]\<close> and \<open>c_in\<close> in
  \<open>{0, 1}\<close>, the reference model returns (it raises nothing)
  \<open>expected_sum = (a + b + c_in) mod 2^N\<close> and \<open>expected_c_out = (a + b + c_in) div 2^N\<close>,
  and the carry-out is 0 or 1. At \<open>N = 4\<close> the vector \<open>(7, 12, 0)\<close> gives sum 3 and
  carry-out 1.
\<close>

theorem C1_reference_model:
  assumes "0 < N"
    and "0 \<le> a" "a \<le> 2 ^ nat N - 1"
    and "0 \<le> b" "b \<le> 2 ^ nat N - 1"
    and "c_in = 0 \<or> c_in = 1"
  shows "\<exists>expected_sum expected_c_out.
           reference_model N a b c_in = Inr (expected_sum, expected_c_out)
         \<and> expected_sum = (a + b + c_in) mod 2 ^ nat N
         \<and> expected_c_out = (a + b + c_in) div 2 ^ nat N
         \<and> (expected_c_out = 0 \<or> expected_c_out = 1)
         \<and> reference_model 4 7 12 0 = Inr (3, 1)"
proof -
  have "reference_model N a b c_in =
          Inr ((a + b + c_in) mod 2 ^ nat N, (a + b + c_in) div 2 ^ nat N)"
    using assms(1) by (simp add: reference_model_eq)
  moreover have "(a + b + c_in) div 2 ^ nat N = 0 \<or> (a + b + c_in) div 2 ^ nat N = 1"
    using assms by (intro carry_is_bit) auto
  moreover have "reference_model 4 7 12 0 = Inr (3, 1)"
    by (simp add: reference_model_eq)
  ultimately show ?thesis by simp
qed

theorem C1_reference_model_witness:
  "reference_model 8 255 255 1 = Inr (255, 1) \<and> reference_model 4 7 12 0 = Inr (3, 1)"
  using C1_reference_model [of 8 255 255 1] by simp

section \<open>Properties of the stimulus generator\<close>

lemma randint_ok:
  assumes "lo \<le> hi"
  shows "\<exists>v. randint lo hi g = (Inr v, stl g) \<and> lo \<le> v \<and> v \<le> hi"
proof -
  let ?n = "nat (hi - lo + 1)"
  have pos: "0 < ?n" using assms by simp
  have "shd g mod ?n < ?n" using pos by simp
  then have "int (shd g mod ?n) \<le> hi - lo" using assms by linarith
  then show ?thesis using assms by (simp add: randint_def)
qed

text \<open>
  With \<open>max_val \<ge> 0\<close> no draw raises: \<open>n\<close> iterations append \<open>n\<close> vectors within the
  bounds and consume \<open>3 * n\<close> draws.
\<close>

lemma generate_loop_ok:
  assumes "0 \<le> max_val"
  shows "\<exists>vs. generate_loop n max_val acc g = (Inr (acc @ vs), sdrop (3 * n) g)
            \<and> length vs = n \<and> (\<forall>v \<in> set vs. in_bounds max_val v)"
proof (induction n arbitrary: acc g)
  case 0
  show ?case by simp
next
  case (Suc n)
  obtain a where a: "randint 0 max_val g = (Inr a, stl g)" "0 \<le> a" "a \<le> max_val"
    using randint_ok [OF assms] by blast
  obtain b where b: "randint 0 max_val (stl g) = (Inr b, stl (stl g))" "0 \<le> b" "b \<le> max_val"
    using randint_ok [OF assms] by blast
  obtain c where c: "randint 0 1 (stl (stl g)) = (Inr c, stl (stl (stl g)))" "0 \<le> c" "c \<le> 1"
    using randint_ok [of 0 1] by force
  obtain vs where vs:
    "generate_loop n max_val (acc @ [(a, b, c)]) (stl (stl (stl g)))
       = (Inr ((acc @ [(a, b, c)]) @ vs), sdrop (3 * n) (stl (stl (stl g))))"
    "length vs = n" "\<forall>v \<in> set vs. in_bounds max_val v"
    using Suc.IH by blast
  have bit: "c = 0 \<or> c = 1" using c(2,3) by linarith
  have "generate_loop (Suc n) max_val acc g
          = (Inr (acc @ (a, b, c) # vs), sdrop (3 * Suc n) g)"
    using a(1) b(1) c(1) vs(1) by (simp add: numeral_3_eq_3)
  moreover have "length ((a, b, c) # vs) = Suc n" using vs(2) by simp
  moreover have "\<forall>v \<in> set ((a, b, c) # vs). in_bounds max_val v"
    using vs(3) a b bit by (simp add: in_bounds_def)
  ultimately show ?case by blast
qed

text \<open>Unfolding the loop at a numeral count, for evaluation at concrete inputs.\<close>

lemma generate_loop_numeral:
  "generate_loop (numeral k) max_val acc g = generate_loop (Suc (pred_numeral k)) max_val acc g"
  by (simp add: numeral_eq_Suc)

lemma generate_vectors_ok:
  assumes "0 \<le> w"
  shows "\<exists>vs. generate_vectors (AdderSequence_init w) arg g
               = (Inr vs, sdrop (3 * nat (case arg of None \<Rightarrow> 1 | Some k \<Rightarrow> k)) g)
            \<and> length vs = nat (case arg of None \<Rightarrow> 1 | Some k \<Rightarrow> k)
            \<and> (\<forall>v \<in> set vs. in_bounds (2 ^ nat w - 1) v)"
proof -
  have "(0::int) \<le> 2 ^ nat w - 1" by simp
  from generate_loop_ok [OF this, of "nat (case arg of None \<Rightarrow> 1 | Some k \<Rightarrow> k)" "[]" g]
  show ?thesis using assms
    by (simp add: generate_vectors_def AdderSequence_init_def py_lshift_def)
qed

lemma generate_vectors_negative_width:
  assumes "w < 0"
  shows "generate_vectors (AdderSequence_init w) arg g = (Inl ValueError, g)"
  using assms by (simp add: generate_vectors_def AdderSequence_init_def py_lshift_def)

text \<open>
  Claim C2. For every width \<open>N > 0\<close> and every count \<open>k \<ge> 0\<close>,
  \<open>AdderSequence(N).generate_vectors(k)\<close> returns (without raising, whatever the state of
  the random number generator) a list of exactly \<open>k\<close> vectors \<open>(a, b, c_in)\<close> with \<open>a\<close> and
  \<open>b\<close> in \<open>[0, 2^N - 1]\<close> and \<open>c_in\<close> in \<open>{0, 1}\<close>; called without a count it returns
  exactly one such vector.
\<close>

theorem C2_generate_vectors:
  assumes "0 < N" and "0 \<le> k"
  shows "(\<exists>vs g'. generate_vectors (AdderSequence_init N) (Some k) g = (Inr vs, g')
            \<and> int (length vs) = k
            \<and> (\<forall>(a, b, c_in) \<in> set vs.
                  0 \<le> a \<and> a \<le> 2 ^ nat N - 1 \<and> 0 \<le> b \<and> b \<le> 2 ^ nat N - 1
                  \<and> (c_in = 0 \<or> c_in = 1)))
       \<and> (\<exists>vs g'. generate_vectors (AdderSequence_init N) None g = (Inr vs, g')
            \<and> length vs = 1
            \<and> (\<forall>(a, b, c_in) \<in> set vs.
                  0 \<le> a \<and> a \<le> 2 ^ nat N - 1 \<and> 0 \<le> b \<and> b \<le> 2 ^ nat N - 1
                  \<and> (c_in = 0 \<or> c_in = 1)))"
proof
  have w: "0 \<le> N" using assms(1) by simp
  from generate_vectors_ok [OF w, of "Some k" g] assms(2)
  show "\<exists>vs g'. generate_vectors (AdderSequence_init N) (Some k) g = (Inr vs, g')
            \<and> int (length vs) = k
            \<and> (\<forall>(a, b, c_in) \<in> set vs.
                  0 \<le> a \<and> a \<le> 2 ^ nat N - 1 \<and> 0 \<le> b \<and> b \<le> 2 ^ nat N - 1
                  \<and> (c_in = 0 \<or> c_in = 1))"
    by (fastforce simp: in_bounds_def)
  from generate_vectors_ok [OF w, of None g]
  show "\<exists>vs g'. generate_vectors (AdderSequence_init N) None g = (Inr vs, g')
            \<and> length vs = 1
            \<and> (\<forall>(a, b, c_in) \<in> set vs.
                  0 \<le> a \<and> a \<le> 2 ^ nat N - 1 \<and> 0 \<le> b \<and> b \<le> 2 ^ nat N - 1
                  \<and> (c_in = 0 \<or> c_in = 1))"
    by (fastforce simp: in_bounds_def)
qed

theorem C2_generate_vectors_witness:
  "\<exists>vs g'. generate_vectors (AdderSequence_init 4) (Some 2) (siterate (\<lambda>n. 7 * n + 5) 3)
             = (Inr vs, g')
           \<and> vs = [(3, 10, 1), (2, 3, 0)]
           \<and> (\<forall>(a, b, c_in) \<in> set vs. 0 \<le> a \<and> a \<le> 15 \<and> 0 \<le> b \<and> b \<le> 15
                 \<and> (c_in = 0 \<or> c_in = 1))"
  using C2_generate_vectors [of 4 2 "siterate (\<lambda>n. 7 * n + 5) 3"]
  by (simp add: generate_vectors_def AdderSequence_init_def py_lshift_def randint_def
      generate_loop_numeral)

text \<open>
  The claim C6 as stated fails at width 0: \<open>AdderSequence(0).generate_vectors(1)\<close> raises
  nothing and returns the vector \<open>(0, 0, 0)\<close> (here with the draws 0, 1, 2).
\<close>

theorem C6_width_zero_counterexample:
  "generate_vectors (AdderSequence_init 0) (Some 1) (siterate Suc 0)
     = (Inr [(0, 0, 0)], siterate Suc 3)"
  by (simp add: generate_vectors_def AdderSequence_init_def py_lshift_def randint_def
      numeral_3_eq_3)

text \<open>
  Claim C6, amended. The constructor accepts every width (it returns the object with
  that width). For a width below 0, \<open>generate_vectors\<close> raises \<open>ValueError\<close> (the negative
  shift count of \<open>1 << width\<close>) for every count, given or omitted, before any draw: no vector
  is returned and the random number generator is left as it was. A width of 0 is
  accepted: for a count \<open>k \<ge> 0\<close> the call returns \<open>k\<close> vectors, each with \<open>a = b = 0\<close> and
  \<open>c_in\<close> in \<open>{0, 1}\<close>.
\<close>

theorem C6_width_check:
  shows "width (AdderSequence_init w) = w
       \<and> (w < 0 \<longrightarrow> generate_vectors (AdderSequence_init w) arg g = (Inl ValueError, g))
       \<and> (0 \<le> k \<longrightarrow>
            (\<exists>vs g'. generate_vectors (AdderSequence_init 0) (Some k) g = (Inr vs, g')
               \<and> int (length vs) = k
               \<and> (\<forall>(a, b, c_in) \<in> set vs. a = 0 \<and> b = 0 \<and> (c_in = 0 \<or> c_in = 1))))"
proof (intro conjI impI)
  show "width (AdderSequence_init w) = w"
    by (simp add: AdderSequence_init_def)
  show "generate_vectors (AdderSequence_init w) arg g = (Inl ValueError, g)" if "w < 0"
    using that by (rule generate_vectors_negative_width)
  show "\<exists>vs g'. generate_vectors (AdderSequence_init 0) (Some k) g = (Inr vs, g')
               \<and> int (length vs) = k
               \<and> (\<forall>(a, b, c_in) \<in> set vs. a = 0 \<and> b = 0 \<and> (c_in = 0 \<or> c_in = 1))"
    if "0 \<le> k"
    using generate_vectors_ok [of 0 "Some k" g] that
    by (fastforce simp: in_bounds_def)
qed

theorem C6_width_check_witness:
  "generate_vectors (AdderSequence_init (- 1)) (Some 3) (siterate Suc 0)
     = (Inl ValueError, siterate Suc 0)
   \<and> (\<exists>vs g'. generate_vectors (AdderSequence_init 0) (Some 2) (siterate Suc 0) = (Inr vs, g')
         \<and> vs = [(0, 0, 0), (0, 0, 1)])"
  using C6_width_check [of "- 1" "Some 3" "siterate Suc 0" 2]
  by (simp add: generate_vectors_def AdderSequence_init_def py_lshift_def randint_def
      generate_loop_numeral)


section \<open>Properties of the coverage collector\<close>

subsection \<open>Sampling and reporting\<close>

lemma sample_covered:
  "covered (sample s a b cin) = finsert [AInt a, AInt b, AInt cin] (covered s)"
  by (simp add: sample_def)

text \<open>
  Claim C10. \<open>sample\<close> checks nothing and has no failing branch: for all integers \<open>a\<close>,
  \<open>b\<close>, \<open>c_in\<close>, in range or not, the tuple \<open>(a, b, c_in)\<close> is in the covered set after the
  call, nothing that was covered is lost, and the cardinality grows by at most 1.
\<close>

theorem C10_sample_unbounded:
  "[AInt a, AInt b, AInt cin] |\<in>| covered (sample s a b cin)
   \<and> covered s |\<subseteq>| covered (sample s a b cin)
   \<and> fcard (covered s) \<le> fcard (covered (sample s a b cin))
   \<and> fcard (covered (sample s a b cin)) \<le> fcard (covered s) + 1"
  by (auto simp: sample_covered fcard_finsert_if)

theorem C10_sample_unbounded_witness:
  "covered (sample AdderCoverage_init (- 5) (2 ^ 40) 7) = {|[AInt (- 5), AInt (2 ^ 40), AInt 7]|}
   \<and> [AInt (- 5), AInt (2 ^ 40), AInt 7] |\<in>| covered (sample AdderCoverage_init (- 5) (2 ^ 40) 7)
   \<and> fcard (covered (sample AdderCoverage_init (- 5) (2 ^ 40) 7)) \<le> 1"
  using C10_sample_unbounded [of "- 5" "2 ^ 40" 7 AdderCoverage_init]
  by (simp add: sample_covered AdderCoverage_init_def fcard_finsert_if)

text \<open>
  Claim C9. Sampling a vector a second time changes nothing: the collector, and so the
  cardinality of its covered set, is the same as after the first time. After the samples
  \<open>(1, 2, 0)\<close>, \<open>(1, 2, 0)\<close>, \<open>(3, 4, 1)\<close> on a fresh collector, \<open>report()\<close> prints the
  cardinality 2.
\<close>

theorem C9_sample_idempotent:
  "sample (sample s a b cin) a b cin = sample s a b cin
   \<and> fcard (covered (sample (sample s a b cin) a b cin)) = fcard (covered (sample s a b cin))
   \<and> report (sample (sample (sample AdderCoverage_init 1 2 0) 1 2 0) 3 4 1) out
       = out @ [''[Coverage] Total unique input combinations: 2'']"
proof -
  have twice: "sample (sample s a b cin) a b cin = sample s a b cin"
    by (simp add: sample_def)
  have "covered (sample (sample (sample AdderCoverage_init 1 2 0) 1 2 0) 3 4 1)
          = {|[AInt 3, AInt 4, AInt 1], [AInt 1, AInt 2, AInt 0]|}"
    by (simp add: sample_def AdderCoverage_init_def)
  moreover have "fcard {|[AInt 3, AInt 4, AInt 1], [AInt 1, AInt 2, AInt 0]|} = 2"
    by (simp add: fcard_finsert_if)
  ultimately have "report (sample (sample (sample AdderCoverage_init 1 2 0) 1 2 0) 3 4 1) out
       = out @ [''[Coverage] Total unique input combinations: 2'']"
    by (simp add: report_def digit_def)
  with twice show ?thesis by simp
qed

theorem C9_sample_idempotent_witness:
  "fcard (covered (sample (sample AdderCoverage_init 1 2 0) 1 2 0)) = 1
   \<and> report (sample (sample (sample AdderCoverage_init 1 2 0) 1 2 0) 3 4 1) []
       = [''[Coverage] Total unique input combinations: 2'']"
  using C9_sample_idempotent [of AdderCoverage_init 1 2 0 "[]"]
  by (simp add: sample_covered AdderCoverage_init_def fcard_finsert_if)

subsection \<open>Merging\<close>

text \<open>
  Claim C4. After \<open>A.merge(B)\<close> the covered set of \<open>A\<close> is the union of the two covered
  sets and the covered set of \<open>B\<close> is what it was (also when \<open>A\<close> and \<open>B\<close> are the same
  object). The resulting set does not depend on the direction of the merge:
  \<open>A.merge(B)\<close> leaves in \<open>A\<close> what \<open>B.merge(A)\<close> leaves in \<open>B\<close>. It does not depend on the
  grouping either: \<open>A.merge(B); A.merge(C)\<close> leaves in \<open>A\<close> what \<open>B.merge(C); A.merge(B)\<close>
  does, the union of the three sets.
\<close>

theorem C4_merge_union:
  "covered (merge_at h a b a) = covered (h a) |\<union>| covered (h b)
   \<and> covered (merge_at h a b b) = covered (h b)
   \<and> covered (merge_at h a b a) = covered (merge_at h b a b)
   \<and> covered (merge_at (merge_at h a b) a c a) = covered (merge_at (merge_at h b c) a b a)
   \<and> covered (merge_at (merge_at h a b) a c a) = covered (h a) |\<union>| covered (h b) |\<union>| covered (h c)"
  by (auto simp: merge_at_def merge_def)

theorem C4_merge_union_witness:
  "covered (merge_at
      ((\<lambda>_. AdderCoverage_init)
         (0 := \<lparr>covered = {|[AInt 1, AInt 2, AInt 0]|}\<rparr>,
          1 := \<lparr>covered = {|[AInt 1, AInt 2, AInt 0], [AInt 3, AInt 4, AInt 1]|}\<rparr>)) 0 1 0)
     = {|[AInt 1, AInt 2, AInt 0], [AInt 3, AInt 4, AInt 1]|}
   \<and> fcard (covered (merge_at
      ((\<lambda>_. AdderCoverage_init)
         (0 := \<lparr>covered = {|[AInt 1, AInt 2, AInt 0]|}\<rparr>,
          1 := \<lparr>covered = {|[AInt 1, AInt 2, AInt 0], [AInt 3, AInt 4, AInt 1]|}\<rparr>)) 0 1 0)) = 2"
proof -
  let ?h = "(\<lambda>_::nat. AdderCoverage_init)
         (0 := \<lparr>covered = {|[AInt 1, AInt 2, AInt 0]|}\<rparr>,
          1 := \<lparr>covered = {|[AInt 1, AInt 2, AInt 0], [AInt 3, AInt 4, AInt 1]|}\<rparr>)"
  have "covered (merge_at ?h 0 1 0) = covered (?h 0) |\<union>| covered (?h 1)"
    using C4_merge_union [of ?h 0 1 0] by (rule conjunct1)
  then have eq: "covered (merge_at ?h 0 1 0)
                   = {|[AInt 1, AInt 2, AInt 0], [AInt 3, AInt 4, AInt 1]|}"
    by auto
  have "fcard {|[AInt 1, AInt 2, AInt 0], [AInt 3, AInt 4, AInt 1]|} = 2"
    by (simp add: fcard_finsert_if)
  with eq show ?thesis by simp
qed

subsection \<open>Saving and loading\<close>

lemma hash_tuple_json_of: "hash_tuple (map json_of_atom t) = Inr t"
proof (induction t)
  case Nil
  show ?case by simp
next
  case (Cons a t)
  then show ?case by (cases a) simp_all
qed

text \<open>Reading back what \<open>save\<close> wrote for the list \<open>data\<close> adds exactly its tuples.\<close>

lemma build_set_json_of:
  "build_set (map json_of_tuple data) acc = Inr (acc |\<union>| fset_of_list data)"
proof (induction data arbitrary: acc)
  case Nil
  show ?case by simp
next
  case (Cons t data)
  have "build_set (map json_of_tuple (t # data)) acc
          = build_set (map json_of_tuple data) (finsert t acc)"
    by (simp add: json_of_tuple_def hash_tuple_json_of)
  also have "\<dots> = Inr (finsert t acc |\<union>| fset_of_list data)"
    by (rule Cons.IH)
  finally show ?case by simp
qed

lemma save_ok:
  assumes "save order self filename fs = (Inr (), fs')"
  shows "fs' = fs(filename := File (Doc (JArr (map json_of_tuple (order (covered self))))))"
  using assms by (auto simp: save_def Let_def split: node.splits)

text \<open>
  Claim C3. For every covered set \<open>C\<close> and every order in which the set is enumerated
  for serialization: when \<open>save(path)\<close> succeeds, \<open>load(path)\<close> on the file system it
  leaves succeeds too, in whichever collector it is called, and that collector's covered
  set is then exactly \<open>C\<close>.
\<close>

theorem C3_save_load_roundtrip:
  assumes "iterates order (covered self)"
    and "save order self filename fs = (Inr (), fs')"
  shows "load other filename fs' = (Inr (), other\<lparr>covered := covered self\<rparr>)"
proof -
  have fs': "fs' filename = File (Doc (JArr (map json_of_tuple (order (covered self)))))"
    using save_ok [OF assms(2)] by simp
  have "fset_of_list (order (covered self)) = covered self"
    using assms(1) by (simp add: iterates_def)
  then have "build_set (map json_of_tuple (order (covered self))) {||} = Inr (covered self)"
    by (simp add: build_set_json_of)
  then show ?thesis
    by (simp add: load_def fs')
qed

theorem C3_save_load_roundtrip_witness:
  "load AdderCoverage_init ''cov.json''
     (snd (save (\<lambda>_. [[AInt 3, AInt 4, AInt 1], [AInt 1, AInt 2, AInt 0]])
             \<lparr>covered = {|[AInt 1, AInt 2, AInt 0], [AInt 3, AInt 4, AInt 1]|}\<rparr>
             ''cov.json'' no_files))
   = (Inr (), \<lparr>covered = {|[AInt 1, AInt 2, AInt 0], [AInt 3, AInt 4, AInt 1]|}\<rparr>)"
proof -
  let ?order = "\<lambda>_::py_tuple fset. [[AInt 3, AInt 4, AInt 1], [AInt 1, AInt 2, AInt 0]]"
  let ?self = "\<lparr>covered = {|[AInt 1, AInt 2, AInt 0], [AInt 3, AInt 4, AInt 1]|}\<rparr>"
  let ?fs = "no_files"
  have it: "iterates ?order (covered ?self)"
    by (auto simp: iterates_def)
  have sv: "save ?order ?self ''cov.json'' ?fs = (Inr (), snd (save ?order ?self ''cov.json'' ?fs))"
    by (simp add: save_def no_files_def)
  show ?thesis
    using C3_save_load_roundtrip [OF it sv, of AdderCoverage_init]
    by (simp add: AdderCoverage_init_def)
qed

lemma hash_tuple_ok_iff: "(\<exists>e. hash_tuple ys = Inl e) \<longleftrightarrow> \<not> list_all hashable ys"
proof (induction ys)
  case Nil
  show ?case by simp
next
  case (Cons y ys)
  then show ?case by (cases y) (auto split: sum.splits)
qed

lemma hash_tuple_chars: "\<exists>t. hash_tuple (map (\<lambda>c. JStr [c]) s) = Inr t"
  by (induction s) auto

lemma hash_tuple_strs: "\<exists>t. hash_tuple (map JStr ks) = Inr t"
  by (induction ks) auto

lemma element_fails_iff:
  "(\<exists>e. (case py_iter x of Inl e \<Rightarrow> Inl e | Inr items \<Rightarrow> hash_tuple items) = Inl e)
     \<longleftrightarrow> \<not> element_ok x"
proof (cases x)
  case (JArr ys)
  then show ?thesis using hash_tuple_ok_iff [of ys] by simp
next
  case (JStr s)
  then show ?thesis using hash_tuple_chars [of s] by auto
next
  case (JObj kvs)
  then show ?thesis using hash_tuple_strs [of "dict_keys kvs"] by auto
qed simp_all

lemma build_set_fails_iff:
  "(\<exists>e. build_set xs acc = Inl e) \<longleftrightarrow> \<not> list_all element_ok xs"
proof (induction xs arbitrary: acc)
  case Nil
  show ?case by simp
next
  case (Cons x xs)
  show ?case
  proof (cases "element_ok x")
    case True
    then obtain t where "(case py_iter x of Inl e \<Rightarrow> Inl e | Inr items \<Rightarrow> hash_tuple items) = Inr t"
      using element_fails_iff [of x]
      by (cases "case py_iter x of Inl e \<Rightarrow> Inl e | Inr items \<Rightarrow> hash_tuple items") auto
    then have "build_set (x # xs) acc = build_set xs (finsert t acc)"
      by (auto split: sum.splits)
    then show ?thesis using Cons.IH [of "finsert t acc"] True by simp
  next
    case False
    then obtain e where "(case py_iter x of Inl e \<Rightarrow> Inl e | Inr items \<Rightarrow> hash_tuple items) = Inl e"
      using element_fails_iff [of x] by blast
    then have "build_set (x # xs) acc = Inl e"
      by (auto split: sum.splits)
    then show ?thesis using False by simp
  qed
qed

lemma build_set_chars: "\<exists>s'. build_set (map (\<lambda>c. JStr [c]) s) acc = Inr s'"
  by (induction s arbitrary: acc) auto

lemma build_set_strs: "\<exists>s'. build_set (map JStr ks) acc = Inr s'"
proof (induction ks arbitrary: acc)
  case Nil
  show ?case by simp
next
  case (Cons k ks)
  obtain t where "hash_tuple (map (\<lambda>c. JStr [c]) k) = Inr t"
    using hash_tuple_chars by blast
  then show ?case using Cons.IH by simp
qed

lemma load_fails_iff:
  "(\<exists>e. fst (load self filename fs) = Inl e) \<longleftrightarrow> \<not> loadable (fs filename)"
proof (cases "fs filename")
  case Missing
  then show ?thesis by (simp add: load_def)
next
  case NoAccess
  then show ?thesis by (simp add: load_def)
next
  case (File c)
  show ?thesis
  proof (cases c)
    case Garbage
    then show ?thesis using File by (simp add: load_def)
  next
    case (Doc d)
    show ?thesis
    proof (cases d)
      case JNull
      then show ?thesis using File Doc by (simp add: load_def)
    next
      case (JInt i)
      then show ?thesis using File Doc by (simp add: load_def)
    next
      case (JStr s)
      then show ?thesis using File Doc build_set_chars [of s "{||}"]
        by (auto simp: load_def)
    next
      case (JArr xs)
      then show ?thesis using File Doc build_set_fails_iff [of xs "{||}"]
        by (auto simp: load_def split: sum.splits)
    next
      case (JObj kvs)
      then show ?thesis using File Doc build_set_strs [of "dict_keys kvs" "{||}"]
        by (auto simp: load_def)
    qed
  qed
qed

lemma build_set_int_rows:
  "build_set (map (\<lambda>r. JArr (map JInt r)) rows) acc
     = Inr (acc |\<union>| fset_of_list (map (map AInt) rows))"
proof (induction rows arbitrary: acc)
  case Nil
  show ?case by simp
next
  case (Cons r rows)
  have "hash_tuple (map JInt r) = Inr (map AInt r)"
    by (induction r) simp_all
  then show ?case using Cons.IH [of "finsert (map AInt r) acc"] by simp
qed

text \<open>
  The claim C5 as stated fails on a file holding \<open>[[1, 2, 5], [1, 2], "ab"]\<close>: a carry of
  5, a pair, and a string. \<open>load\<close> raises nothing and the covered set becomes
  \<open>{(1, 2, 5), (1, 2), ('a', 'b')}\<close>.
\<close>

theorem C5_load_accepts_malformed_counterexample:
  "load AdderCoverage_init ''cov.json''
     (single_file ''cov.json''
        (Doc (JArr [JArr [JInt 1, JInt 2, JInt 5], JArr [JInt 1, JInt 2], JStr [97, 98]])))
   = (Inr (), \<lparr>covered = {|[AInt 1, AInt 2, AInt 5], [AInt 1, AInt 2], [AStr [97], AStr [98]]|}\<rparr>)"
  by (auto simp: load_def AdderCoverage_init_def single_file_def)

text \<open>
  Claim C5, amended. \<open>load\<close> raises exactly when the file is absent or cannot be opened,
  is not JSON, holds a top-level value that cannot be iterated (a number or \<open>null\<close>), an
  element that cannot be iterated, or an element with a component that cannot be hashed
  (an array or an object). Everything else is taken as it stands: a file holding an
  array of arrays of integers is loaded whatever the length of the inner arrays and
  whatever the value in the carry position, and the covered set becomes the set of
  these tuples.
\<close>

theorem C5_load_rejects:
  "((\<exists>e. fst (load self filename fs) = Inl e) \<longleftrightarrow> \<not> loadable (fs filename))
   \<and> (fs filename = File (Doc (JArr (map (\<lambda>r. JArr (map JInt r)) rows))) \<longrightarrow>
        load self filename fs = (Inr (), self\<lparr>covered := fset_of_list (map (map AInt) rows)\<rparr>))"
proof (intro conjI impI)
  show "(\<exists>e. fst (load self filename fs) = Inl e) \<longleftrightarrow> \<not> loadable (fs filename)"
    by (rule load_fails_iff)
  show "load self filename fs = (Inr (), self\<lparr>covered := fset_of_list (map (map AInt) rows)\<rparr>)"
    if "fs filename = File (Doc (JArr (map (\<lambda>r. JArr (map JInt r)) rows)))"
    using that build_set_int_rows [of rows "{||}"] by (simp add: load_def)
qed

theorem C5_load_rejects_witness:
  "load AdderCoverage_init ''cov.json''
     (single_file ''cov.json'' (Doc (JArr [JArr [JInt 1, JInt 2, JInt 5], JArr [JInt 7]])))
     = (Inr (), \<lparr>covered = {|[AInt 1, AInt 2, AInt 5], [AInt 7]|}\<rparr>)
   \<and> loadable (single_file ''cov.json''
                  (Doc (JArr [JArr [JInt 1, JInt 2, JInt 5], JArr [JInt 7]])) ''cov.json'')
   \<and> fst (load AdderCoverage_init ''cov.json'' no_files) = Inl FileNotFoundError
   \<and> \<not> loadable (no_files ''cov.json'')"
proof -
  let ?fs = "single_file ''cov.json'' (Doc (JArr [JArr [JInt 1, JInt 2, JInt 5], JArr [JInt 7]]))"
  have doc: "?fs ''cov.json''
               = File (Doc (JArr (map (\<lambda>r. JArr (map JInt r)) [[1, 2, 5], [7]])))"
    by (simp add: single_file_def)
  have "load AdderCoverage_init ''cov.json'' ?fs
          = (Inr (), AdderCoverage_init\<lparr>covered := fset_of_list (map (map AInt) [[1, 2, 5], [7]])\<rparr>)"
    using C5_load_rejects [of AdderCoverage_init "''cov.json''" ?fs "[[1, 2, 5], [7]]"] doc
    by blast
  then have "load AdderCoverage_init ''cov.json'' ?fs
          = (Inr (), \<lparr>covered = {|[AInt 1, AInt 2, AInt 5], [AInt 7]|}\<rparr>)"
    by (simp add: AdderCoverage_init_def)
  moreover have "loadable (?fs ''cov.json'')"
    by (simp add: single_file_def)
  moreover have "fst (load AdderCoverage_init ''cov.json'' no_files) = Inl FileNotFoundError"
    by (simp add: load_def no_files_def)
  moreover have "\<not> loadable (no_files ''cov.json'')"
    by (simp add: no_files_def)
  ultimately show ?thesis by simp
qed

text \<open>
  Claim C8. A \<open>load\<close> that raises, whatever the reason (an absent or inaccessible file,
  text that is not JSON, a value that cannot be iterated or hashed, at any position of
  the document), leaves the collector as it was before the call.
\<close>

theorem C8_failed_load_keeps_state:
  assumes "fst (load self filename fs) = Inl e"
  shows "snd (load self filename fs) = self"
  using assms
  by (auto simp: load_def split: node.splits content.splits sum.splits)

theorem C8_failed_load_keeps_state_witness:
  "fst (load \<lparr>covered = {|[AInt 9, AInt 9, AInt 1]|}\<rparr> ''cov.json''
          (single_file ''cov.json'' (Doc (JArr [JArr [JInt 1, JInt 2, JInt 0], JInt 3]))))
     = Inl TypeError
   \<and> snd (load \<lparr>covered = {|[AInt 9, AInt 9, AInt 1]|}\<rparr> ''cov.json''
          (single_file ''cov.json'' (Doc (JArr [JArr [JInt 1, JInt 2, JInt 0], JInt 3]))))
       = \<lparr>covered = {|[AInt 9, AInt 9, AInt 1]|}\<rparr>"
proof -
  have f: "fst (load \<lparr>covered = {|[AInt 9, AInt 9, AInt 1]|}\<rparr> ''cov.json''
          (single_file ''cov.json'' (Doc (JArr [JArr [JInt 1, JInt 2, JInt 0], JInt 3]))))
     = Inl TypeError"
    by (simp add: load_def single_file_def)
  from C8_failed_load_keeps_state [OF f] f show ?thesis by simp
qed

section \<open>Properties of the checking step\<close>

lemma check_outputs_eq:
  "check_outputs dut es ec =
     (if sum_value dut \<noteq> es then Inl (AssertionError (Sum_mismatch (sum_value dut) es))
      else if c_out_value dut \<noteq> ec
        then Inl (AssertionError (C_out_mismatch (c_out_value dut) ec))
      else Inr ())"
  by (simp add: check_outputs_def assert_adder_sum_def assert_adder_c_out_def Let_def)

text \<open>
  The claim C7 as stated fails when both outputs are wrong: with the outputs
  \<open>(sum = 2, c_out = 0)\<close> and the expected values \<open>(3, 1)\<close> the step ends with the sum
  mismatch alone, although the carry-out assertion, had it been called, would have
  failed too.
\<close>

theorem C7_first_mismatch_only_counterexample:
  "check_outputs \<lparr>sum_value = 2, c_out_value = 0\<rparr> 3 1 = Inl (AssertionError (Sum_mismatch 2 3))
   \<and> assert_adder_c_out \<lparr>sum_value = 2, c_out_value = 0\<rparr> 1
       = Inl (AssertionError (C_out_mismatch 0 1))"
  by (simp add: check_outputs_eq assert_adder_c_out_def)

text \<open>
  Claim C7, amended. The checking step compares the sum first and the carry-out only
  when the sum matches. It passes exactly when both outputs match; it reports the sum
  mismatch exactly when the sums differ, whatever the carry-out; it reports the carry
  mismatch exactly when the sums agree and the carry-outs differ. At most one mismatch is
  reported for a vector.
\<close>

theorem C7_check_outputs:
  "(check_outputs dut es ec = Inr () \<longleftrightarrow> sum_value dut = es \<and> c_out_value dut = ec)
   \<and> (check_outputs dut es ec = Inl (AssertionError (Sum_mismatch (sum_value dut) es))
        \<longleftrightarrow> sum_value dut \<noteq> es)
   \<and> (check_outputs dut es ec = Inl (AssertionError (C_out_mismatch (c_out_value dut) ec))
        \<longleftrightarrow> sum_value dut = es \<and> c_out_value dut \<noteq> ec)"
  by (simp add: check_outputs_eq)

theorem C7_check_outputs_witness:
  "check_outputs \<lparr>sum_value = 3, c_out_value = 1\<rparr> 3 1 = Inr ()
   \<and> check_outputs \<lparr>sum_value = 3, c_out_value = 0\<rparr> 3 1
       = Inl (AssertionError (C_out_mismatch 0 1))"
  using C7_check_outputs [of "\<lparr>sum_value = 3, c_out_value = 1\<rparr>" 3 1]
    C7_check_outputs [of "\<lparr>sum_value = 3, c_out_value = 0\<rparr>" 3 1]
  by simp


section \<open>The test as a whole\<close>

lemma expected_eq:
  assumes "0 \<le> N"
  shows "expected N (2 ^ nat N - 1) a b c_in =
           Inr ((a + b + c_in) mod 2 ^ nat N, (a + b + c_in) div 2 ^ nat N)"
  using assms by (simp add: expected_def py_rshift_def Let_def and_mask_mod drop_bit_eq_div)

text \<open>
  On a circuit that adds exactly, every vector passes the check and is sampled.
\<close>

lemma test_loop_exact_adder:
  assumes "0 \<le> N"
    and "\<And>a b c_in. settle d a b c_in =
           \<lparr>sum_value = (a + b + c_in) mod 2 ^ nat N, c_out_value = (a + b + c_in) div 2 ^ nat N\<rparr>"
  shows "test_loop d N (2 ^ nat N - 1) vs coverage
           = Inr (fold (\<lambda>(a, b, c_in) cov. sample cov a b c_in) vs coverage)"
proof (induction vs arbitrary: coverage)
  case Nil
  show ?case by simp
next
  case (Cons v vs)
  obtain a b c_in where v: "v = (a, b, c_in)" by (cases v)
  show ?case
    using Cons.IH [of "sample coverage a b c_in"]
    by (simp add: v expected_eq [OF assms(1)] assms(2) check_outputs_eq)
qed

text \<open>
  The test then passes and reports one covered combination, the single vector that
  \<open>generate_vectors()\<close> returned.
\<close>

lemma test_adder_basic_exact_adder:
  assumes "0 \<le> N_value d"
    and "\<And>a b c_in. settle d a b c_in =
           \<lparr>sum_value = (a + b + c_in) mod 2 ^ nat (N_value d),
            c_out_value = (a + b + c_in) div 2 ^ nat (N_value d)\<rparr>"
  shows "test_adder_basic d g out
           = (Inr (), out @ [''[Coverage] Total unique input combinations: 1''])"
proof -
  obtain vs where vs: "generate_vectors (AdderSequence_init (N_value d)) None g
                         = (Inr vs, sdrop (3 * nat 1) g)" "length vs = 1"
    using generate_vectors_ok [OF assms(1), of None g] by auto
  then obtain a b c_in where v: "vs = [(a, b, c_in)]"
    by (cases vs; cases "hd vs") auto
  have m: "mask_of (N_value d) = Inr (2 ^ nat (N_value d) - 1)"
    using assms(1) by (simp add: mask_of_def py_lshift_def)
  have "test_loop d (N_value d) (2 ^ nat (N_value d) - 1) vs AdderCoverage_init
          = Inr (sample AdderCoverage_init a b c_in)"
    using test_loop_exact_adder [OF assms, of vs AdderCoverage_init] by (simp add: v)
  moreover have "fcard (covered (sample AdderCoverage_init a b c_in)) = 1"
    by (simp add: sample_covered AdderCoverage_init_def fcard_finsert_if)
  ultimately show ?thesis
    using vs(1) m by (simp add: test_adder_basic_def Let_def report_def digit_def)
qed

text \<open>A negative width parameter ends the test at the mask, before any output is printed.\<close>

lemma test_adder_basic_negative_width:
  assumes "N_value d < 0"
  shows "test_adder_basic d g out = (Inl ValueError, out)"
  using assms by (simp add: test_adder_basic_def Let_def mask_of_def py_lshift_def)

end
